theory Spec2Isabelle
  imports Complex_Main
begin

section \<open>Detection post-processing of the generated CanMV script\<close>

text \<open>
  The theory embeds the class \<open>YOLOv8Detector\<close> of the deployment script that
  \<open>deploy_canmv.py\<close> generates: \<open>postprocess\<close>, \<open>nms\<close>, \<open>iou\<close>, \<open>update_fps\<close> and the
  part of \<open>run\<close> that decides when \<open>gc.collect()\<close> is called.

  Python floats (class scores, normalised coordinates, confidences, the IoU quotient and
  the two thresholds) are modelled as rationals: every property below depends on
  comparisons and on integer arithmetic only, not on rounding. Python integers are
  \<open>int\<close>; a class index, which \<open>list.index\<close> returns, is a \<open>nat\<close>.
\<close>

subsection \<open>Exceptions and detections\<close>

datatype exn = ValueError | IndexError | ZeroDivisionError

text \<open>
  A detection is the tuple \<open>(x, y, w, h, conf, cls)\<close> that \<open>postprocess\<close> appends:
  the fields are the tuple's positions 0 to 5.
\<close>

record detection =
  det_x :: int
  det_y :: int
  det_w :: int
  det_h :: int
  det_conf :: rat
  det_cls :: nat

subsection \<open>\<open>iou\<close>\<close>

text \<open>Python's \<open>a / b\<close> on integers: a float, or \<open>ZeroDivisionError\<close>.\<close>

definition truediv :: "int \<Rightarrow> int \<Rightarrow> exn + rat" where
  "truediv a b = (if b = 0 then Inl ZeroDivisionError else Inr (of_int a / of_int b))"

text \<open>The local \<open>inter_area\<close> of \<open>iou\<close>.\<close>

definition inter_area :: "detection \<Rightarrow> detection \<Rightarrow> int" where
  "inter_area box1 box2 =
     (let x1_1 = det_x box1; y1_1 = det_y box1; w1 = det_w box1; h1 = det_h box1;
          x1_2 = det_x box2; y1_2 = det_y box2; w2 = det_w box2; h2 = det_h box2;
          x2_1 = x1_1 + w1; y2_1 = y1_1 + h1;
          x2_2 = x1_2 + w2; y2_2 = y1_2 + h2;
          xi1 = max x1_1 x1_2;
          yi1 = max y1_1 y1_2;
          xi2 = min x2_1 x2_2;
          yi2 = min y2_1 y2_2
      in max 0 (xi2 - xi1) * max 0 (yi2 - yi1))"

text \<open>The local \<open>union_area\<close> of \<open>iou\<close>.\<close>

definition union_area :: "detection \<Rightarrow> detection \<Rightarrow> int" where
  "union_area box1 box2 =
     (let box1_area = det_w box1 * det_h box1;
          box2_area = det_w box2 * det_h box2
      in box1_area + box2_area - inter_area box1 box2)"

text \<open>
  \<open>return inter_area / union_area if union_area > 0 else 0\<close>, with the exception the
  division could raise kept as a value.
\<close>

definition iou_result :: "detection \<Rightarrow> detection \<Rightarrow> exn + rat" where
  "iou_result box1 box2 =
     (if union_area box1 box2 > 0
      then truediv (inter_area box1 box2) (union_area box1 box2)
      else Inr 0)"

text \<open>
  The number \<open>iou\<close> returns. The \<open>Inl\<close> branch is never taken (lemma
  \<open>iou_result_value\<close> below), so \<open>nms\<close> can use the value directly.
\<close>

definition iou :: "detection \<Rightarrow> detection \<Rightarrow> rat" where
  "iou box1 box2 = (case iou_result box1 box2 of Inr r \<Rightarrow> r | Inl e \<Rightarrow> 0)"

subsection \<open>\<open>nms\<close>\<close>

text \<open>
  \<open>detections.sort(key=lambda x: x[4], reverse=True)\<close>: Python's sort is stable, and
  with \<open>reverse=True\<close> elements of equal key still keep their original order. A stable
  ascending sort on the negated confidence is the same list.
\<close>

definition sort_conf_desc :: "detection list \<Rightarrow> detection list" where
  "sort_conf_desc detections = sort_key (\<lambda>x. - det_conf x) detections"

text \<open>
  The \<open>while len(detections) > 0\<close> loop: \<open>best = detections.pop(0)\<close>,
  \<open>keep.append(best)\<close>, then the list comprehension that keeps \<open>det\<close> when
  \<open>self.iou(best, det) < iou_threshold or best[5] != det[5]\<close>.
\<close>

function nms_loop :: "rat \<Rightarrow> detection list \<Rightarrow> detection list \<Rightarrow> detection list" where
  "nms_loop iou_threshold [] keep = keep"
| "nms_loop iou_threshold (best # detections) keep =
     nms_loop iou_threshold
       (filter (\<lambda>det. iou best det < iou_threshold \<or> det_cls best \<noteq> det_cls det) detections)
       (keep @ [best])"
  by pat_completeness auto
termination
  by (relation "measure (\<lambda>(u, detections, keep). length detections)")
     (auto simp: less_Suc_eq_le)

definition nms :: "detection list \<Rightarrow> rat \<Rightarrow> detection list" where
  "nms detections iou_threshold =
     (if length detections = 0 then []
      else nms_loop iou_threshold (sort_conf_desc detections) [])"

text \<open>
  \<open>nms\<close> also changes the list object it is given: \<open>sort\<close> reorders it in place and the
  first \<open>pop(0)\<close> removes its head, before \<open>detections\<close> is rebound to a fresh list. This
  is what the caller's list holds after the call; the returned list \<open>keep\<close> is a new
  object.
\<close>

definition nms_argument_after :: "detection list \<Rightarrow> detection list" where
  "nms_argument_after detections =
     (if length detections = 0 then [] else tl (sort_conf_desc detections))"

subsection \<open>\<open>postprocess\<close>\<close>

text \<open>\<open>int(r)\<close> on a float truncates toward zero.\<close>

definition py_int :: "rat \<Rightarrow> int" where
  "py_int r = (if 0 \<le> r then \<lfloor>r\<rfloor> else \<lceil>r\<rceil>)"

text \<open>\<open>max(xs)\<close> raises \<open>ValueError\<close> on an empty list.\<close>

definition py_max :: "rat list \<Rightarrow> exn + rat" where
  "py_max xs = (case xs of [] \<Rightarrow> Inl ValueError | y # ys \<Rightarrow> Inr (fold max ys y))"

text \<open>\<open>xs.index(v)\<close>: the first position holding \<open>v\<close>, \<open>ValueError\<close> when there is none.\<close>

fun py_index :: "rat list \<Rightarrow> rat \<Rightarrow> exn + nat" where
  "py_index [] v = Inl ValueError"
| "py_index (y # ys) v =
     (if y = v then Inr 0
      else (case py_index ys v of Inl e \<Rightarrow> Inl e | Inr i \<Rightarrow> Inr (Suc i)))"

text \<open>
  The corner conversion and the clamp of \<open>postprocess\<close> (from \<open>x1 = int(...)\<close> to the
  tuple's first four components), for \<open>self.img_width\<close> and \<open>self.img_height\<close>.
\<close>

definition to_pixel_box ::
  "int \<Rightarrow> int \<Rightarrow> rat \<Rightarrow> rat \<Rightarrow> rat \<Rightarrow> rat \<Rightarrow> int \<times> int \<times> int \<times> int" where
  "to_pixel_box img_width img_height x_center y_center width height =
     (let x1 = py_int ((x_center - width / 2) * of_int img_width);
          y1 = py_int ((y_center - height / 2) * of_int img_height);
          x2 = py_int ((x_center + width / 2) * of_int img_width);
          y2 = py_int ((y_center + height / 2) * of_int img_height);
          x1 = max 0 (min x1 img_width);
          y1 = max 0 (min y1 img_height);
          x2 = max 0 (min x2 img_width);
          y2 = max 0 (min y2 img_height)
      in (x1, y1, x2 - x1, y2 - y1))"

text \<open>
  The body of \<open>for pred in predictions\<close>. \<open>Inl\<close> is an exception raised by the body
  (the unpacking of \<open>pred[:4]\<close> needs exactly four values; \<open>max\<close> needs a score),
  \<open>Inr None\<close> is \<open>continue\<close>, \<open>Inr (Some d)\<close> is \<open>detections.append(d)\<close>.
\<close>

definition decode_pred :: "int \<Rightarrow> int \<Rightarrow> rat \<Rightarrow> rat list \<Rightarrow> exn + detection option" where
  "decode_pred img_width img_height conf_thresh pred =
     (if length (take 4 pred) \<noteq> 4 then Inl ValueError
      else
        let x_center = pred ! 0; y_center = pred ! 1; width = pred ! 2; height = pred ! 3;
            class_scores = drop 4 pred
        in (case py_max class_scores of
              Inl e \<Rightarrow> Inl e
            | Inr max_conf \<Rightarrow>
                if max_conf < conf_thresh then Inr None
                else (case py_index class_scores max_conf of
                        Inl e \<Rightarrow> Inl e
                      | Inr class_id \<Rightarrow>
                          (case to_pixel_box img_width img_height x_center y_center width height of
                             (x, y, w, h) \<Rightarrow>
                               Inr (Some \<lparr>det_x = x, det_y = y, det_w = w, det_h = h,
                                          det_conf = max_conf, det_cls = class_id\<rparr>)))))"

text \<open>
  The \<open>for\<close> loop inside \<open>try\<close>: the \<open>try\<close> encloses the whole loop, so an exception
  in one iteration ends the loop, \<open>except Exception\<close> prints it, and \<open>detections\<close> keeps
  what was appended before.
\<close>

fun decode_loop ::
  "int \<Rightarrow> int \<Rightarrow> rat \<Rightarrow> rat list list \<Rightarrow> detection list \<Rightarrow> detection list" where
  "decode_loop img_width img_height conf_thresh [] detections = detections"
| "decode_loop img_width img_height conf_thresh (pred # predictions) detections =
     (case decode_pred img_width img_height conf_thresh pred of
        Inl e \<Rightarrow> detections
      | Inr None \<Rightarrow> decode_loop img_width img_height conf_thresh predictions detections
      | Inr (Some d) \<Rightarrow>
          decode_loop img_width img_height conf_thresh predictions (detections @ [d]))"

text \<open>
  The \<open>try\<close> block of \<open>postprocess\<close>: \<open>predictions = outputs[0]\<close> (an \<open>IndexError\<close> on
  an empty \<open>outputs\<close> is caught as well and leaves \<open>detections\<close> empty), then the loop.
\<close>

definition decode :: "int \<Rightarrow> int \<Rightarrow> rat \<Rightarrow> rat list list list \<Rightarrow> detection list" where
  "decode img_width img_height conf_thresh outputs =
     (case outputs of
        [] \<Rightarrow> []
      | predictions # _ \<Rightarrow> decode_loop img_width img_height conf_thresh predictions [])"

definition postprocess ::
  "int \<Rightarrow> int \<Rightarrow> rat list list list \<Rightarrow> rat \<Rightarrow> rat \<Rightarrow> detection list" where
  "postprocess img_width img_height outputs conf_thresh iou_thresh =
     nms (decode img_width img_height conf_thresh outputs) iou_thresh"

subsection \<open>The Decoder as the specification words it\<close>

text \<open>
  These three definitions follow the specification's contract of the Decoder, not the
  code: one detection per prediction whose maximum class score is at least the threshold,
  in the order of the predictions; its confidence is that maximum and its class is the
  lowest index that attains it. They are compared with \<open>decode\<close> below.
\<close>

definition spec_argmax :: "rat list \<Rightarrow> nat" where
  "spec_argmax scores =
     hd (filter (\<lambda>i. scores ! i = Max (set scores)) [0..<length scores])"

definition spec_detection :: "int \<Rightarrow> int \<Rightarrow> rat list \<Rightarrow> detection" where
  "spec_detection img_width img_height pred =
     (case to_pixel_box img_width img_height (pred ! 0) (pred ! 1) (pred ! 2) (pred ! 3) of
        (x, y, w, h) \<Rightarrow>
          \<lparr>det_x = x, det_y = y, det_w = w, det_h = h,
           det_conf = Max (set (drop 4 pred)), det_cls = spec_argmax (drop 4 pred)\<rparr>)"

definition spec_decode :: "int \<Rightarrow> int \<Rightarrow> rat \<Rightarrow> rat list list \<Rightarrow> detection list" where
  "spec_decode img_width img_height t predictions =
     map (spec_detection img_width img_height)
       (filter (\<lambda>pred. t \<le> Max (set (drop 4 pred))) predictions)"

subsection \<open>\<open>update_fps\<close> and the reclamation test of \<open>run\<close>\<close>

record detector =
  frame_count :: int
  fps :: int
  last_time :: int

text \<open>
  \<open>time.ticks_diff\<close> belongs to MicroPython, not to this repository. Its documented
  behaviour: the clock \<open>ticks_ms\<close> counts modulo \<open>TICKS_PERIOD\<close>, a power of two, and
  \<open>ticks_diff(a, b)\<close> is the signed difference within half a period.
\<close>

definition TICKS_PERIOD :: int where
  "TICKS_PERIOD = 2 ^ 30"

definition ticks_diff :: "int \<Rightarrow> int \<Rightarrow> int" where
  "ticks_diff ticks1 ticks2 =
     (ticks1 - ticks2 + TICKS_PERIOD div 2) mod TICKS_PERIOD - TICKS_PERIOD div 2"

text \<open>\<open>update_fps\<close>; \<open>current_time\<close> is what \<open>time.ticks_ms()\<close> returns in this call.\<close>

definition update_fps :: "int \<Rightarrow> detector \<Rightarrow> detector" where
  "update_fps current_time self =
     (let self = self\<lparr>frame_count := frame_count self + 1\<rparr>
      in if ticks_diff current_time (last_time self) \<ge> 1000
         then self\<lparr>fps := frame_count self, frame_count := 0, last_time := current_time\<rparr>
         else self)"

text \<open>The counters as \<open>__init__\<close> leaves them; \<open>t0\<close> is its reading of \<open>ticks_ms\<close>.\<close>

definition init_detector :: "int \<Rightarrow> detector" where
  "init_detector t0 = \<lparr>frame_count = 0, fps = 0, last_time = t0\<rparr>"

text \<open>A sequence of \<open>update_fps\<close> calls, one clock reading each.\<close>

definition ticks :: "int list \<Rightarrow> detector \<Rightarrow> detector" where
  "ticks readings self = fold update_fps readings self"

text \<open>
  The loop of \<open>run\<close>, over the frames it processes: an iteration whose capture returns
  \<open>None\<close> does \<open>continue\<close> before it touches the counters, so only the iterations with
  a frame appear, each with the clock reading of its \<open>update_fps\<close>. The result records,
  per processed frame, whether \<open>self.frame_count % 10 == 0\<close> held, that is whether
  \<open>gc.collect()\<close> was called at the end of the iteration.
\<close>

fun run_gc :: "int list \<Rightarrow> detector \<Rightarrow> bool list" where
  "run_gc [] self = []"
| "run_gc (current_time # readings) self =
     (let self = update_fps current_time self
      in (frame_count self mod 10 = 0) # run_gc readings self)"

section \<open>Properties of \<open>iou\<close>\<close>

lemma inter_area_sym: "inter_area box1 box2 = inter_area box2 box1"
  by (simp add: inter_area_def Let_def max.commute min.commute)

lemma union_area_sym: "union_area box1 box2 = union_area box2 box1"
  by (simp add: union_area_def Let_def inter_area_sym [of box1 box2])

lemma iou_result_sym: "iou_result box1 box2 = iou_result box2 box1"
  by (simp add: iou_result_def inter_area_sym [of box1 box2] union_area_sym [of box1 box2])

lemma iou_sym: "iou box1 box2 = iou box2 box1"
  by (simp add: iou_def iou_result_sym [of box1 box2])

lemma iou_result_value:
  "iou_result box1 box2 =
     Inr (if union_area box1 box2 > 0
          then of_int (inter_area box1 box2) / of_int (union_area box1 box2) else 0)"
  by (simp add: iou_result_def truediv_def)

lemma iou_value:
  "iou box1 box2 =
     (if union_area box1 box2 > 0
      then of_int (inter_area box1 box2) / of_int (union_area box1 box2) else 0)"
  by (simp add: iou_def iou_result_value)

lemma inter_area_nonneg: "0 \<le> inter_area box1 box2"
  by (simp add: inter_area_def Let_def)

lemma inter_area_zero_area:
  assumes "det_w box1 * det_h box1 = 0"
  shows "inter_area box1 box2 = 0"
proof -
  from assms have "det_w box1 = 0 \<or> det_h box1 = 0" by simp
  then show ?thesis
  proof
    assume "det_w box1 = 0"
    then have "max 0 (min (det_x box1 + det_w box1) (det_x box2 + det_w box2)
                 - max (det_x box1) (det_x box2)) = 0"
      by simp
    then show ?thesis by (simp add: inter_area_def Let_def)
  next
    assume "det_h box1 = 0"
    then have "max 0 (min (det_y box1 + det_h box1) (det_y box2 + det_h box2)
                 - max (det_y box1) (det_y box2)) = 0"
      by simp
    then show ?thesis by (simp add: inter_area_def Let_def)
  qed
qed

text \<open>
  Claim C8. The IoU function is commutative: for all boxes A and B given as
  \<open>(x, y, w, h)\<close>, \<open>IoU(A, B) = IoU(B, A)\<close>. Both the returned number and the
  exception-aware result of \<open>iou\<close> are the same in either order.
\<close>

theorem iou_commutative:
  "iou_result A B = iou_result B A \<and> iou A B = iou B A"
  by (simp add: iou_def iou_result_def inter_area_sym [of A B] union_area_sym [of A B])

text \<open>
  Claim C9. For any two boxes whose union area is 0, \<open>iou\<close> returns 0 and no division by
  zero occurs: \<open>iou\<close> never raises, the quotient is taken only when the union is strictly
  positive, a union area of 0 gives 0, and two boxes of zero area (wherever they are) have
  union area 0 and hence IoU 0.
\<close>

theorem iou_zero_union:
  "(\<exists>r. iou_result box1 box2 = Inr r)
   \<and> iou_result box1 box2 =
       (if 0 < union_area box1 box2
        then Inr (of_int (inter_area box1 box2) / of_int (union_area box1 box2))
        else Inr 0)
   \<and> (union_area box1 box2 = 0 \<longrightarrow> iou_result box1 box2 = Inr 0 \<and> iou box1 box2 = 0)
   \<and> (det_w box1 * det_h box1 = 0 \<and> det_w box2 * det_h box2 = 0 \<longrightarrow>
        union_area box1 box2 = 0 \<and> iou_result box1 box2 = Inr 0 \<and> iou box1 box2 = 0)"
proof -
  have total: "\<exists>r. iou_result box1 box2 = Inr r"
    by (simp add: iou_result_value)
  have guarded: "iou_result box1 box2 =
       (if 0 < union_area box1 box2
        then Inr (of_int (inter_area box1 box2) / of_int (union_area box1 box2))
        else Inr 0)"
    by (simp add: iou_result_value)
  have zero: "union_area box1 box2 = 0 \<longrightarrow> iou_result box1 box2 = Inr 0 \<and> iou box1 box2 = 0"
    by (simp add: iou_result_value iou_value)
  have degenerate: "det_w box1 * det_h box1 = 0 \<and> det_w box2 * det_h box2 = 0 \<longrightarrow>
        union_area box1 box2 = 0 \<and> iou_result box1 box2 = Inr 0 \<and> iou box1 box2 = 0"
  proof
    assume a: "det_w box1 * det_h box1 = 0 \<and> det_w box2 * det_h box2 = 0"
    then have "inter_area box1 box2 = 0" by (simp add: inter_area_zero_area)
    with a have "union_area box1 box2 = 0" by (auto simp: union_area_def Let_def)
    then show "union_area box1 box2 = 0 \<and> iou_result box1 box2 = Inr 0 \<and> iou box1 box2 = 0"
      by (simp add: iou_result_value iou_value)
  qed
  from total guarded zero degenerate show ?thesis by blast
qed

theorem iou_zero_union_witness:
  "union_area \<lparr>det_x = 3, det_y = 4, det_w = 0, det_h = 5, det_conf = 1, det_cls = 0\<rparr>
              \<lparr>det_x = 3, det_y = 6, det_w = 7, det_h = 0, det_conf = 1, det_cls = 0\<rparr> = 0
   \<and> iou_result \<lparr>det_x = 3, det_y = 4, det_w = 0, det_h = 5, det_conf = 1, det_cls = 0\<rparr>
              \<lparr>det_x = 3, det_y = 6, det_w = 7, det_h = 0, det_conf = 1, det_cls = 0\<rparr> = Inr 0"
  using iou_zero_union
    [of "\<lparr>det_x = 3, det_y = 4, det_w = 0, det_h = 5, det_conf = 1, det_cls = 0\<rparr>"
        "\<lparr>det_x = 3, det_y = 6, det_w = 7, det_h = 0, det_conf = 1, det_cls = 0\<rparr>"]
  by simp

section \<open>Properties of \<open>update_fps\<close>\<close>

lemma update_fps_no_rollover:
  "ticks_diff t (last_time s) < 1000 \<Longrightarrow>
   update_fps t s = s\<lparr>frame_count := frame_count s + 1\<rparr>"
  by (simp add: update_fps_def Let_def)

lemma update_fps_rollover:
  "1000 \<le> ticks_diff t (last_time s) \<Longrightarrow>
   update_fps t s = s\<lparr>fps := frame_count s + 1, frame_count := 0, last_time := t\<rparr>"
  by (simp add: update_fps_def Let_def)

lemma ticks_Nil: "ticks [] s = s"
  by (simp add: ticks_def)

lemma ticks_Cons: "ticks (t # ts) s = ticks ts (update_fps t s)"
  by (simp add: ticks_def)

lemma ticks_append: "ticks (xs @ ys) s = ticks ys (ticks xs s)"
  by (simp add: ticks_def)

lemma ticks_no_rollover:
  "\<forall>t\<in>set ts. ticks_diff t (last_time s) < 1000 \<Longrightarrow>
   ticks ts s = s\<lparr>frame_count := frame_count s + int (length ts)\<rparr>"
proof (induction ts arbitrary: s)
  case Nil
  then show ?case by (simp add: ticks_Nil)
next
  case (Cons t ts)
  have step: "update_fps t s = s\<lparr>frame_count := frame_count s + 1\<rparr>"
    using Cons.prems by (simp add: update_fps_no_rollover)
  have "\<forall>t'\<in>set ts. ticks_diff t' (last_time (update_fps t s)) < 1000"
    using Cons.prems by (simp add: step)
  from Cons.IH [OF this] show ?case
    by (simp add: ticks_Cons step)
qed

text \<open>
  Claim C5, as the code has it. \<open>update_fps\<close> increments the counter before it looks at
  the clock, so the call that closes a window is counted in that window: after 30 calls
  less than 1000ms after the last reset and one more call 1001ms after it, the reported FPS
  is 31 (not 30), the counter is 0 and the timestamp is the time of the last call.
\<close>

theorem fps_window_counts_closing_tick:
  fixes s :: detector
  assumes "length ts = 30"
    and "frame_count s = 0"
    and "\<forall>t\<in>set ts. ticks_diff t (last_time s) < 1000"
    and "ticks_diff t' (last_time s) = 1001"
  shows "ticks (ts @ [t']) s = \<lparr>frame_count = 0, fps = 31, last_time = t'\<rparr>"
proof -
  have mid: "ticks ts s = s\<lparr>frame_count := 30\<rparr>"
    using ticks_no_rollover [OF assms(3)] assms(1,2) by simp
  have "1000 \<le> ticks_diff t' (last_time (s\<lparr>frame_count := 30\<rparr>))"
    using assms(4) by simp
  then have "update_fps t' (s\<lparr>frame_count := 30\<rparr>)
             = (s\<lparr>frame_count := 30\<rparr>)
                 \<lparr>fps := frame_count (s\<lparr>frame_count := 30\<rparr>) + 1,
                  frame_count := 0, last_time := t'\<rparr>"
    by (rule update_fps_rollover)
  then show ?thesis
    by (simp add: ticks_append mid ticks_Cons ticks_Nil)
qed

text \<open>
  The scenario of claim C5 run on the code: the detector is initialised at clock reading 0,
  30 calls follow at 33ms intervals (the last at 990ms) and one more at 1001ms. The code
  reports 31 frames per second, so the claim's value 30 is not what it computes.
\<close>

theorem fps_scenario_counterexample:
  "fps (ticks [33, 66, 99, 132, 165, 198, 231, 264, 297, 330, 363, 396, 429, 462, 495,
               528, 561, 594, 627, 660, 693, 726, 759, 792, 825, 858, 891, 924, 957, 990,
               1001] (init_detector 0)) = 31
   \<and> fps (ticks [33, 66, 99, 132, 165, 198, 231, 264, 297, 330, 363, 396, 429, 462, 495,
               528, 561, 594, 627, 660, 693, 726, 759, 792, 825, 858, 891, 924, 957, 990,
               1001] (init_detector 0)) \<noteq> 30"
  by code_simp

theorem fps_window_counts_closing_tick_witness:
  "ticks ([33, 66, 99, 132, 165, 198, 231, 264, 297, 330, 363, 396, 429, 462, 495,
           528, 561, 594, 627, 660, 693, 726, 759, 792, 825, 858, 891, 924, 957, 990]
          @ [1001]) (init_detector 0)
   = \<lparr>frame_count = 0, fps = 31, last_time = 1001\<rparr>"
  using fps_window_counts_closing_tick
    [of "[33, 66, 99, 132, 165, 198, 231, 264, 297, 330, 363, 396, 429, 462, 495,
           528, 561, 594, 627, 660, 693, 726, 759, 792, 825, 858, 891, 924, 957, 990]"
        "init_detector 0" 1001]
  by (simp add: init_detector_def ticks_diff_def TICKS_PERIOD_def)

section \<open>When \<open>run\<close> calls \<open>gc.collect()\<close>\<close>

lemma run_gc_length: "length (run_gc ts s) = length ts"
  by (induction ts arbitrary: s) (simp_all add: Let_def)

lemma run_gc_append: "run_gc (xs @ ys) s = run_gc xs s @ run_gc ys (ticks xs s)"
  by (induction xs arbitrary: s) (simp_all add: Let_def ticks_Nil ticks_Cons)

lemma update_fps_count:
  "frame_count (update_fps t s) = 0 \<or> frame_count (update_fps t s) = frame_count s + 1"
  by (simp add: update_fps_def Let_def)

text \<open>The test of \<open>run\<close> reads the counter that \<open>update_fps\<close> has just updated.\<close>

lemma run_gc_nth:
  "k < length ts \<Longrightarrow>
   run_gc ts s ! k = (frame_count (ticks (take (Suc k) ts) s) mod 10 = 0)"
proof (induction ts arbitrary: s k)
  case Nil
  then show ?case by simp
next
  case (Cons t ts)
  show ?case
  proof (cases k)
    case 0
    then show ?thesis by (simp add: Let_def ticks_Cons ticks_Nil)
  next
    case (Suc k')
    with Cons.prems have "k' < length ts" by simp
    from Cons.IH [OF this, of "update_fps t s"] Suc show ?thesis
      by (simp add: Let_def ticks_Cons)
  qed
qed

text \<open>While no FPS window closes, the requests are exactly ten frames apart.\<close>

lemma run_gc_no_rollover:
  assumes a: "\<forall>t\<in>set ts. ticks_diff t (last_time s) < 1000" and k: "k < length ts"
  shows "run_gc ts s ! k = ((frame_count s + int k + 1) mod 10 = 0)"
proof -
  have "\<forall>t\<in>set (take (Suc k) ts). ticks_diff t (last_time s) < 1000"
    using a by (meson in_set_takeD)
  from ticks_no_rollover [OF this] k
  have "frame_count (ticks (take (Suc k) ts) s) = frame_count s + int k + 1"
    by (simp add: min_def)
  with run_gc_nth [OF k, of s] show ?thesis by simp
qed

lemma run_gc_reaches_multiple:
  "\<exists>k\<in>{1..int (length ts)}. (frame_count s + k) mod 10 = 0 \<Longrightarrow> True \<in> set (run_gc ts s)"
proof (induction ts arbitrary: s)
  case Nil
  then show ?case by simp
next
  case (Cons t ts)
  let ?s' = "update_fps t s"
  show ?case
  proof (cases "frame_count ?s' mod 10 = 0")
    case True
    then show ?thesis by (simp add: Let_def)
  next
    case False
    then have nz: "frame_count ?s' \<noteq> 0" by auto
    with update_fps_count [of t s] have c: "frame_count ?s' = frame_count s + 1" by simp
    from Cons.prems obtain k where k: "1 \<le> k" "k \<le> int (length (t # ts))"
      "(frame_count s + k) mod 10 = 0" by auto
    from False c k(3) have "k \<noteq> 1" by auto
    with k have "k - 1 \<in> {1..int (length ts)}" "(frame_count ?s' + (k - 1)) mod 10 = 0"
      by (auto simp: c)
    then have "\<exists>k\<in>{1..int (length ts)}. (frame_count ?s' + k) mod 10 = 0"
      by (rule bexI [rotated])
    from Cons.IH [OF this] show ?thesis by (simp add: Let_def)
  qed
qed

lemma run_gc_ten:
  assumes "length ts = 10"
  shows "True \<in> set (run_gc ts s)"
proof -
  have "10 - frame_count s mod 10 \<in> {1..int (length ts)}"
    using assms by (simp add: pos_mod_bound)
  moreover have "(frame_count s + (10 - frame_count s mod 10)) mod 10 = 0"
    by presburger
  ultimately have "\<exists>k\<in>{1..int (length ts)}. (frame_count s + k) mod 10 = 0"
    by (rule bexI [rotated])
  then show ?thesis by (rule run_gc_reaches_multiple)
qed

text \<open>
  What the code does guarantee: any ten consecutive processed frames contain a request,
  so two consecutive requests are never more than ten frames apart.
\<close>

lemma run_gc_window:
  assumes "i + 10 \<le> length ts"
  shows "\<exists>j. i \<le> j \<and> j < i + 10 \<and> run_gc ts s ! j"
proof -
  let ?a = "take i ts" and ?b = "take 10 (drop i ts)" and ?c = "drop (i + 10) ts"
  have split: "ts = ?a @ ?b @ ?c"
    by (metis append_take_drop_id drop_drop add.commute)
  have lb: "length ?b = 10" using assms by simp
  have la: "length ?a = i" using assms by simp
  from run_gc_ten [OF lb, of "ticks ?a s"]
  obtain j' where j': "j' < 10" "run_gc ?b (ticks ?a s) ! j'"
    by (auto simp: in_set_conv_nth run_gc_length lb)
  have "run_gc ts s = run_gc ?a s @ run_gc ?b (ticks ?a s) @ run_gc ?c (ticks ?b (ticks ?a s))"
    by (subst split) (simp only: run_gc_append)
  then have "run_gc ts s ! (i + j')
             = (run_gc ?b (ticks ?a s) @ run_gc ?c (ticks ?b (ticks ?a s))) ! j'"
    by (simp only: nth_append_length_plus [of "run_gc ?a s", simplified run_gc_length la])
  also have "\<dots> = run_gc ?b (ticks ?a s) ! j'"
    using j'(1) by (simp only: nth_append run_gc_length lb if_True)
  finally have "run_gc ts s ! (i + j') = run_gc ?b (ticks ?a s) ! j'" .
  with j' show ?thesis by (intro exI [of _ "i + j'"]) simp
qed

text \<open>
  Claim C6 on the code. The claim asks for a reclamation request on every 10th processed
  frame, exactly ten frames apart. \<open>run\<close> tests \<open>self.frame_count % 10 == 0\<close>, but
  \<open>frame_count\<close> is the counter that \<open>update_fps\<close> sets back to 0 whenever 1000ms have
  passed. At two frames per second (clock readings 500, 1000, 1500 and 2000 after an
  initialisation at 0) the counter never reaches 10: \<open>gc.collect()\<close> is requested after
  the second and after the fourth processed frame, two frames apart.
\<close>

theorem gc_requests_two_frames_apart:
  "run_gc [500, 1000, 1500, 2000] (init_detector 0) = [False, True, False, True]"
  by code_simp

section \<open>The pixel box of \<open>postprocess\<close>\<close>

lemma py_int_mono: "a \<le> b \<Longrightarrow> py_int a \<le> py_int b"
proof -
  assume ab: "a \<le> b"
  show ?thesis
  proof (cases "0 \<le> a")
    case True
    with ab have "0 \<le> b" by simp
    with True ab show ?thesis by (simp add: py_int_def floor_mono)
  next
    case False
    show ?thesis
    proof (cases "0 \<le> b")
      case True
      from False have "\<lceil>a\<rceil> \<le> 0" by (simp add: ceiling_le_zero)
      moreover from True have "0 \<le> \<lfloor>b\<rfloor>" by simp
      ultimately have "\<lceil>a\<rceil> \<le> \<lfloor>b\<rfloor>" by (rule order_trans)
      with False True show ?thesis by (simp add: py_int_def)
    next
      case b: False
      with False ab show ?thesis by (simp add: py_int_def ceiling_mono)
    qed
  qed
qed

lemma clamp_mono: "(a::int) \<le> b \<Longrightarrow> max 0 (min a m) \<le> max 0 (min b m)"
  by (simp add: max_def min_def)

lemma clamp_range: "(0::int) < m \<Longrightarrow> 0 \<le> max 0 (min a m) \<and> max 0 (min a m) \<le> m"
  by (simp add: max_def min_def)

text \<open>
  Claim C3, as the code has it. For positive image dimensions the clamp puts both corners
  of every box into the frame: \<open>0 \<le> x \<le> img_width\<close> and \<open>0 \<le> x + w \<le> img_width\<close>, and
  the same for \<open>y\<close> and \<open>h\<close>. When the normalised width and height are not negative, also
  \<open>w \<ge> 0\<close> and \<open>h \<ge> 0\<close>: the pixel extent \<open>[x, x + w) \<times> [y, y + h)\<close> then lies in
  \<open>[0, img_width) \<times> [0, img_height)\<close>, wherever the centre of the box is.
\<close>

theorem pixel_box_inside_frame:
  assumes dims: "0 < img_width" "0 < img_height"
    and box: "to_pixel_box img_width img_height x_center y_center width height = (x, y, w, h)"
  shows "0 \<le> x \<and> x \<le> img_width \<and> 0 \<le> x + w \<and> x + w \<le> img_width
       \<and> 0 \<le> y \<and> y \<le> img_height \<and> 0 \<le> y + h \<and> y + h \<le> img_height
       \<and> (0 \<le> width \<longrightarrow> 0 \<le> w) \<and> (0 \<le> height \<longrightarrow> 0 \<le> h)"
proof -
  let ?x1 = "py_int ((x_center - width / 2) * of_int img_width)"
  let ?y1 = "py_int ((y_center - height / 2) * of_int img_height)"
  let ?x2 = "py_int ((x_center + width / 2) * of_int img_width)"
  let ?y2 = "py_int ((y_center + height / 2) * of_int img_height)"
  from box have x: "x = max 0 (min ?x1 img_width)"
    and y: "y = max 0 (min ?y1 img_height)"
    and w: "x + w = max 0 (min ?x2 img_width)"
    and h: "y + h = max 0 (min ?y2 img_height)"
    by (simp_all add: to_pixel_box_def Let_def)
  have xb: "0 \<le> x \<and> x \<le> img_width" unfolding x using dims(1) by (rule clamp_range)
  have yb: "0 \<le> y \<and> y \<le> img_height" unfolding y using dims(2) by (rule clamp_range)
  have wb: "0 \<le> x + w \<and> x + w \<le> img_width"
    using clamp_range [OF dims(1), of ?x2] by (simp only: w)
  have hb: "0 \<le> y + h \<and> y + h \<le> img_height"
    using clamp_range [OF dims(2), of ?y2] by (simp only: h)
  have wpos: "0 \<le> w" if "0 \<le> width"
  proof -
    from that dims(1)
    have "(x_center - width / 2) * of_int img_width \<le> (x_center + width / 2) * of_int img_width"
      by (intro mult_right_mono) simp_all
    then have "?x1 \<le> ?x2" by (rule py_int_mono)
    then have "max 0 (min ?x1 img_width) \<le> max 0 (min ?x2 img_width)" by (rule clamp_mono)
    then show ?thesis using x w by simp
  qed
  have hpos: "0 \<le> h" if "0 \<le> height"
  proof -
    from that dims(2)
    have "(y_center - height / 2) * of_int img_height \<le> (y_center + height / 2) * of_int img_height"
      by (intro mult_right_mono) simp_all
    then have "?y1 \<le> ?y2" by (rule py_int_mono)
    then have "max 0 (min ?y1 img_height) \<le> max 0 (min ?y2 img_height)" by (rule clamp_mono)
    then show ?thesis using y h by simp
  qed
  from xb yb wb hb wpos hpos show ?thesis by blast
qed


text \<open>
  The claim as stated, for any normalised values: a negative normalised width makes the
  second corner fall left of the first, and the code returns the negative pixel width
  \<open>w = -64\<close>.
\<close>

theorem pixel_box_negative_width:
  "to_pixel_box 320 320 (1/2) (1/2) (- 1/5) (1/5) = (192, 128, - 64, 64)"
  by (simp add: to_pixel_box_def py_int_def Let_def)

theorem pixel_box_inside_frame_witness:
  "(0::int) < 320 \<and> (0::int) < 240 \<and> (0::rat) \<le> 2/5 \<and> (0::rat) \<le> 1/2
   \<and> to_pixel_box 320 240 (9/10) (- 1/10) (2/5) (1/2) = (224, 0, 96, 36)
   \<and> (224::int) + 96 \<le> 320 \<and> (0::int) + 36 \<le> 240"
  using pixel_box_inside_frame [of 320 240 "9/10" "- 1/10" "2/5" "1/2" 224 0 96 36]
  by (simp add: to_pixel_box_def py_int_def Let_def)

section \<open>The decoding loop of \<open>postprocess\<close>\<close>

lemma py_max_Max: "xs \<noteq> [] \<Longrightarrow> py_max xs = Inr (Max (set xs))"
  by (cases xs) (simp_all add: py_max_def Max.set_eq_fold [symmetric])

lemma first_index_filter:
  "v \<in> set xs \<Longrightarrow>
   py_index xs v = Inr (hd (filter (\<lambda>i. xs ! i = v) [0..<length xs]))"
proof (induction xs)
  case Nil
  then show ?case by simp
next
  case (Cons y ys)
  have upt: "[0..<Suc (length ys)] = 0 # map Suc [0..<length ys]"
    by (simp add: upt_conv_Cons map_Suc_upt del: upt_Suc)
  show ?case
  proof (cases "y = v")
    case True
    then show ?thesis by (simp add: upt del: upt_Suc)
  next
    case False
    with Cons.prems have v: "v \<in> set ys" by simp
    then obtain i where i: "i < length ys" "ys ! i = v" by (auto simp: in_set_conv_nth)
    then have ne: "filter (\<lambda>i. ys ! i = v) [0..<length ys] \<noteq> []"
      by (auto simp: filter_empty_conv)
    have "filter (\<lambda>i. (y # ys) ! i = v) [0..<length (y # ys)]
          = map Suc (filter (\<lambda>i. ys ! i = v) [0..<length ys])"
      using False by (simp add: upt filter_map comp_def del: upt_Suc)
    with ne have "hd (filter (\<lambda>i. (y # ys) ! i = v) [0..<length (y # ys)])
          = Suc (hd (filter (\<lambda>i. ys ! i = v) [0..<length ys]))"
      by (simp add: hd_map)
    with Cons.IH [OF v] False show ?thesis by simp
  qed
qed

lemma py_index_argmax: "xs \<noteq> [] \<Longrightarrow> py_index xs (Max (set xs)) = Inr (spec_argmax xs)"
  unfolding spec_argmax_def by (rule first_index_filter) simp

lemma spec_argmax_lowest:
  assumes "scores \<noteq> []"
  shows "spec_argmax scores < length scores
       \<and> scores ! spec_argmax scores = Max (set scores)
       \<and> (\<forall>j<spec_argmax scores. scores ! j < Max (set scores))"
proof -
  let ?m = "Max (set scores)"
  let ?l = "filter (\<lambda>i. scores ! i = ?m) [0..<length scores]"
  have "?m \<in> set scores" using assms by simp
  then obtain i where i: "i < length scores" "scores ! i = ?m" by (auto simp: in_set_conv_nth)
  then have ne: "?l \<noteq> []" by (auto simp: filter_empty_conv)
  then have "hd ?l \<in> set ?l" by (rule hd_in_set)
  then have a: "spec_argmax scores < length scores" "scores ! spec_argmax scores = ?m"
    by (simp_all add: spec_argmax_def)
  have b: "scores ! j < ?m" if j: "j < spec_argmax scores" for j
  proof -
    have jl: "j < length scores" using j a(1) by simp
    have le: "scores ! j \<le> ?m" using jl by simp
    have "scores ! j \<noteq> ?m"
    proof
      assume eq: "scores ! j = ?m"
      have sorted: "sorted ?l" by (simp add: sorted_wrt_filter)
      from eq jl have "j \<in> set ?l" by simp
      with sorted ne have "hd ?l \<le> j"
        by (cases ?l) auto
      with j show False by (simp add: spec_argmax_def)
    qed
    with le show ?thesis by simp
  qed
  from a b show ?thesis by blast
qed

lemma decode_pred_wf:
  assumes "5 \<le> length pred"
  shows "decode_pred W H t pred =
           Inr (if Max (set (drop 4 pred)) < t then None else Some (spec_detection W H pred))"
proof -
  from assms have ne: "drop 4 pred \<noteq> []" by simp
  from assms have take: "min (length pred) 4 = 4" by simp
  show ?thesis
    by (simp add: decode_pred_def take Let_def py_max_Max [OF ne] py_index_argmax [OF ne]
        spec_detection_def split: prod.splits)
qed

lemma decode_pred_short:
  assumes "length pred < 5"
  shows "\<exists>e. decode_pred W H t pred = Inl e"
proof (cases "length pred < 4")
  case True
  then show ?thesis by (simp add: decode_pred_def)
next
  case False
  with assms have "length pred = 4" by simp
  then show ?thesis by (simp add: decode_pred_def py_max_def Let_def)
qed

lemma decode_loop_wf:
  "\<forall>pred\<in>set predictions. 5 \<le> length pred \<Longrightarrow>
   decode_loop W H t predictions acc = acc @ spec_decode W H t predictions"
proof (induction predictions arbitrary: acc)
  case Nil
  then show ?case by (simp add: spec_decode_def)
next
  case (Cons pred predictions)
  then have wf: "5 \<le> length pred" and rest: "\<forall>p\<in>set predictions. 5 \<le> length p"
    by simp_all
  show ?case
    by (simp add: decode_pred_wf [OF wf] Cons.IH [OF rest] spec_decode_def not_less)
qed

lemma decode_loop_stops:
  assumes "\<forall>pred\<in>set before. 5 \<le> length pred" and "length bad < 5"
  shows "decode_loop W H t (before @ bad # after) acc = acc @ spec_decode W H t before"
  using assms(1)
proof (induction before arbitrary: acc)
  case Nil
  from decode_pred_short [OF assms(2), of W H t] obtain e where "decode_pred W H t bad = Inl e" ..
  then show ?case by (simp add: spec_decode_def)
next
  case (Cons pred before)
  then have wf: "5 \<le> length pred" and rest: "\<forall>p\<in>set before. 5 \<le> length p"
    by simp_all
  show ?case
    by (simp add: decode_pred_wf [OF wf] Cons.IH [OF rest] spec_decode_def not_less)
qed

text \<open>
  Claim C2. For a raw output tensor whose rows are RawPredictions (four box values and at
  least one class score) and any threshold \<open>t\<close>, the loop of \<open>postprocess\<close> yields, in
  the order of the rows, exactly one detection for each row whose maximum class score is
  at least \<open>t\<close> and none for the others; the detection's confidence is that maximum and
  its class is the lowest index attaining it.
\<close>

theorem decoder_filters_by_confidence:
  assumes "\<forall>pred\<in>set predictions. 5 \<le> length pred"
  shows "decode img_width img_height t [predictions]
           = spec_decode img_width img_height t predictions
       \<and> (\<forall>pred\<in>set predictions.
            det_conf (spec_detection img_width img_height pred) = Max (set (drop 4 pred))
          \<and> det_cls (spec_detection img_width img_height pred) < length (drop 4 pred)
          \<and> drop 4 pred ! det_cls (spec_detection img_width img_height pred)
              = Max (set (drop 4 pred))
          \<and> (\<forall>j<det_cls (spec_detection img_width img_height pred).
                drop 4 pred ! j < Max (set (drop 4 pred))))"
proof
  show "decode img_width img_height t [predictions]
          = spec_decode img_width img_height t predictions"
    using decode_loop_wf [OF assms, of img_width img_height t "[]"] by (simp add: decode_def)
next
  show "\<forall>pred\<in>set predictions.
            det_conf (spec_detection img_width img_height pred) = Max (set (drop 4 pred))
          \<and> det_cls (spec_detection img_width img_height pred) < length (drop 4 pred)
          \<and> drop 4 pred ! det_cls (spec_detection img_width img_height pred)
              = Max (set (drop 4 pred))
          \<and> (\<forall>j<det_cls (spec_detection img_width img_height pred).
                drop 4 pred ! j < Max (set (drop 4 pred)))"
  proof
    fix pred assume "pred \<in> set predictions"
    with assms have "5 \<le> length pred" by simp
    then have ne: "drop 4 pred \<noteq> []" by simp
    have conf: "det_conf (spec_detection img_width img_height pred) = Max (set (drop 4 pred))"
      and cls: "det_cls (spec_detection img_width img_height pred) = spec_argmax (drop 4 pred)"
      by (simp_all add: spec_detection_def split: prod.splits)
    from spec_argmax_lowest [OF ne]
    show "det_conf (spec_detection img_width img_height pred) = Max (set (drop 4 pred))
          \<and> det_cls (spec_detection img_width img_height pred) < length (drop 4 pred)
          \<and> drop 4 pred ! det_cls (spec_detection img_width img_height pred)
              = Max (set (drop 4 pred))
          \<and> (\<forall>j<det_cls (spec_detection img_width img_height pred).
                drop 4 pred ! j < Max (set (drop 4 pred)))"
      unfolding conf cls by simp
  qed
qed

lemma decode_example:
  "decode 320 320 (1/2)
     [[[1/2, 1/2, 1/5, 1/5, 9/10, 1/10], [3/10, 3/10, 1/10, 1/10, 1/5, 2/5],
       [1/4, 3/4, 1/2, 1/2, 3/5, 3/5]]]
   = [\<lparr>det_x = 128, det_y = 128, det_w = 64, det_h = 64, det_conf = 9/10, det_cls = 0\<rparr>,
      \<lparr>det_x = 0, det_y = 160, det_w = 160, det_h = 160, det_conf = 3/5, det_cls = 0\<rparr>]"
  by code_simp

theorem decoder_filters_by_confidence_witness:
  "decode 320 320 (1/2)
     [[[1/2, 1/2, 1/5, 1/5, 9/10, 1/10], [3/10, 3/10, 1/10, 1/10, 1/5, 2/5],
       [1/4, 3/4, 1/2, 1/2, 3/5, 3/5]]]
   = spec_decode 320 320 (1/2)
       [[1/2, 1/2, 1/5, 1/5, 9/10, 1/10], [3/10, 3/10, 1/10, 1/10, 1/5, 2/5],
        [1/4, 3/4, 1/2, 1/2, 3/5, 3/5]]
   \<and> spec_decode 320 320 (1/2)
       [[1/2, 1/2, 1/5, 1/5, 9/10, 1/10], [3/10, 3/10, 1/10, 1/10, 1/5, 2/5],
        [1/4, 3/4, 1/2, 1/2, 3/5, 3/5]]
     = [\<lparr>det_x = 128, det_y = 128, det_w = 64, det_h = 64, det_conf = 9/10, det_cls = 0\<rparr>,
        \<lparr>det_x = 0, det_y = 160, det_w = 160, det_h = 160, det_conf = 3/5, det_cls = 0\<rparr>]"
proof -
  have wf: "\<forall>pred\<in>set [[1/2, 1/2, 1/5, 1/5, 9/10, 1/10], [3/10, 3/10, 1/10, 1/10, 1/5, 2/5],
                 [1/4, 3/4, 1/2, 1/2, 3/5, 3/5 :: rat]]. 5 \<le> length pred"
    by simp
  from decoder_filters_by_confidence [OF wf, of 320 320 "1/2"]
  have "decode 320 320 (1/2)
     [[[1/2, 1/2, 1/5, 1/5, 9/10, 1/10], [3/10, 3/10, 1/10, 1/10, 1/5, 2/5],
       [1/4, 3/4, 1/2, 1/2, 3/5, 3/5]]]
     = spec_decode 320 320 (1/2)
       [[1/2, 1/2, 1/5, 1/5, 9/10, 1/10], [3/10, 3/10, 1/10, 1/10, 1/5, 2/5],
        [1/4, 3/4, 1/2, 1/2, 3/5, 3/5]]"
    by (rule conjunct1)
  with decode_example show ?thesis by (simp only: simp_thms)
qed

text \<open>
  Claim C4, as the code has it. The \<open>try\<close> encloses the whole loop, so a row too short to
  unpack or to score (fewer than five values) raises nothing to the caller but ends the
  decoding: the rows before it are decoded, the row itself and every row after it are not.
\<close>

theorem decoder_stops_at_malformed:
  assumes "\<forall>pred\<in>set before. 5 \<le> length pred" and "length bad < 5"
  shows "decode img_width img_height t [before @ bad # after]
           = spec_decode img_width img_height t before
       \<and> decode img_width img_height t [before @ bad # after]
           = decode img_width img_height t [before]"
  using decode_loop_stops [OF assms, of img_width img_height t after "[]"]
    decode_loop_wf [OF assms(1), of img_width img_height t "[]"]
  by (simp add: decode_def)

theorem decoder_malformed_counterexample:
  "decode 320 320 (1/2) [[[1/2, 1/2, 1/5], [1/2, 1/2, 1/5, 1/5, 9/10, 1/10]]] = []
   \<and> decode 320 320 (1/2) [[[1/2, 1/2, 1/5, 1/5, 9/10, 1/10]]]
     = [\<lparr>det_x = 128, det_y = 128, det_w = 64, det_h = 64, det_conf = 9/10, det_cls = 0\<rparr>]"
  by code_simp

lemma decode_stop_example:
  "decode 320 320 (1/2)
     [[[1/2, 1/2, 1/5, 1/5, 9/10, 1/10]] @ [1/2, 1/2, 1/5] # [[1/4, 3/4, 1/2, 1/2, 3/5, 3/5]]]
   = [\<lparr>det_x = 128, det_y = 128, det_w = 64, det_h = 64, det_conf = 9/10, det_cls = 0\<rparr>]"
  by code_simp

theorem decoder_stops_at_malformed_witness:
  "length [1/2, 1/2, 1/5 :: rat] < 5
   \<and> decode 320 320 (1/2)
       [[[1/2, 1/2, 1/5, 1/5, 9/10, 1/10]] @ [1/2, 1/2, 1/5] # [[1/4, 3/4, 1/2, 1/2, 3/5, 3/5]]]
     = spec_decode 320 320 (1/2) [[1/2, 1/2, 1/5, 1/5, 9/10, 1/10]]
   \<and> spec_decode 320 320 (1/2) [[1/2, 1/2, 1/5, 1/5, 9/10, 1/10]]
     = [\<lparr>det_x = 128, det_y = 128, det_w = 64, det_h = 64, det_conf = 9/10, det_cls = 0\<rparr>]"
proof -
  have wf: "\<forall>pred\<in>set [[1/2, 1/2, 1/5, 1/5, 9/10, 1/10 :: rat]]. 5 \<le> length pred"
    by simp
  have short: "length [1/2, 1/2, 1/5 :: rat] < 5" by simp
  from decoder_stops_at_malformed [OF wf short, of 320 320 "1/2" "[[1/4, 3/4, 1/2, 1/2, 3/5, 3/5]]"]
  have "decode 320 320 (1/2)
     [[[1/2, 1/2, 1/5, 1/5, 9/10, 1/10]] @ [1/2, 1/2, 1/5] # [[1/4, 3/4, 1/2, 1/2, 3/5, 3/5]]]
     = spec_decode 320 320 (1/2) [[1/2, 1/2, 1/5, 1/5, 9/10, 1/10]]"
    by (rule conjunct1)
  with decode_stop_example short show ?thesis by (simp only: simp_thms)
qed

section \<open>Properties of \<open>nms\<close>\<close>

subsection \<open>The suppression loop\<close>

lemma nms_loop_keep: "nms_loop u ds keep = keep @ nms_loop u ds []"
proof (induction ds arbitrary: keep rule: length_induct)
  case (1 ds)
  show ?case
  proof (cases ds)
    case Nil
    then show ?thesis by (simp only: nms_loop.simps append_Nil2)
  next
    case (Cons best rest)
    let ?rest = "filter (\<lambda>det. iou best det < u \<or> det_cls best \<noteq> det_cls det) rest"
    have shorter: "length ?rest < length ds"
      unfolding Cons by (simp only: length_Cons less_Suc_eq_le length_filter_le)
    from "1.IH" shorter have ih: "\<forall>k. nms_loop u ?rest k = k @ nms_loop u ?rest []"
      by blast
    from ih have a: "nms_loop u ?rest (keep @ [best]) = (keep @ [best]) @ nms_loop u ?rest []"
      by (rule spec)
    from ih have b: "nms_loop u ?rest [best] = [best] @ nms_loop u ?rest []"
      by (rule spec)
    have "nms_loop u ds keep = nms_loop u ?rest (keep @ [best])"
      unfolding Cons by (simp only: nms_loop.simps)
    also have "\<dots> = keep @ ([best] @ nms_loop u ?rest [])"
      by (simp only: a append_assoc)
    also have "\<dots> = keep @ nms_loop u ?rest ([] @ [best])"
      by (simp only: b append_Nil)
    also have "\<dots> = keep @ nms_loop u ds []"
      unfolding Cons by (simp only: nms_loop.simps)
    finally show ?thesis .
  qed
qed

lemma nms_loop_Nil: "nms_loop u [] [] = []"
  by (simp only: nms_loop.simps)

lemma nms_loop_Cons:
  "nms_loop u (best # ds) [] =
     best # nms_loop u (filter (\<lambda>det. iou best det < u \<or> det_cls best \<noteq> det_cls det) ds) []"
proof -
  let ?rest = "filter (\<lambda>det. iou best det < u \<or> det_cls best \<noteq> det_cls det) ds"
  have "nms_loop u (best # ds) [] = nms_loop u ?rest ([] @ [best])"
    by (simp only: nms_loop.simps)
  also have "\<dots> = [best] @ nms_loop u ?rest []"
    by (simp only: append_Nil nms_loop_keep [of u ?rest "[best]"])
  finally show ?thesis by (simp only: append_Cons append_Nil)
qed

declare nms_loop.simps [simp del]
declare nms_loop_Nil [simp]
declare nms_loop_Cons [simp]

lemma nms_loop_induct [case_names Nil Cons]:
  assumes "P []"
    and "\<And>best ds. P (filter (\<lambda>det. iou best det < u \<or> det_cls best \<noteq> det_cls det) ds)
            \<Longrightarrow> P (best # ds)"
  shows "P ds"
proof (induction ds rule: length_induct)
  case (1 ds)
  show ?case
  proof (cases ds)
    case Nil
    with assms(1) show ?thesis by simp
  next
    case (Cons best rest)
    have "length (filter (\<lambda>det. iou best det < u \<or> det_cls best \<noteq> det_cls det) rest)
          < length ds"
      using Cons by (simp add: less_Suc_eq_le)
    with "1.IH" have "P (filter (\<lambda>det. iou best det < u \<or> det_cls best \<noteq> det_cls det) rest)"
      by blast
    then show ?thesis unfolding Cons by (rule assms(2))
  qed
qed

lemma nms_loop_subset: "set (nms_loop u ds []) \<subseteq> set ds"
proof (induction ds rule: nms_loop_induct [where u = u])
  case Nil
  show ?case by simp
next
  case (Cons best ds)
  then show ?case by auto
qed

lemma nms_loop_sorted_wrt:
  "sorted_wrt P ds \<Longrightarrow> sorted_wrt P (nms_loop u ds [])"
proof (induction ds rule: nms_loop_induct [where u = u])
  case Nil
  show ?case by simp
next
  case (Cons best ds)
  let ?rest = "filter (\<lambda>det. iou best det < u \<or> det_cls best \<noteq> det_cls det) ds"
  from Cons.prems have "sorted_wrt P ?rest" by (simp add: sorted_wrt_filter)
  then have "sorted_wrt P (nms_loop u ?rest [])" by (rule Cons.IH)
  moreover have "\<forall>y\<in>set (nms_loop u ?rest []). P best y"
    using nms_loop_subset [of u ?rest] Cons.prems by auto
  ultimately show ?case by simp
qed

lemma nms_loop_pairwise:
  "sorted_wrt (\<lambda>a b. iou a b < u \<or> det_cls a \<noteq> det_cls b) (nms_loop u ds [])"
proof (induction ds rule: nms_loop_induct [where u = u])
  case Nil
  show ?case by simp
next
  case (Cons best ds)
  let ?rest = "filter (\<lambda>det. iou best det < u \<or> det_cls best \<noteq> det_cls det) ds"
  have "\<forall>y\<in>set (nms_loop u ?rest []). iou best y < u \<or> det_cls best \<noteq> det_cls y"
  proof
    fix y assume "y \<in> set (nms_loop u ?rest [])"
    with nms_loop_subset [of u ?rest] have "y \<in> set ?rest" by (rule subsetD)
    then show "iou best y < u \<or> det_cls best \<noteq> det_cls y" by simp
  qed
  then show ?case
    unfolding nms_loop_Cons sorted_wrt.simps using Cons.IH by (rule conjI)
qed

lemma nms_loop_fixpoint:
  "sorted_wrt (\<lambda>a b. iou a b < u \<or> det_cls a \<noteq> det_cls b) xs \<Longrightarrow> nms_loop u xs [] = xs"
proof (induction xs)
  case Nil
  show ?case by simp
next
  case (Cons best xs)
  from Cons.prems
  have all: "\<forall>y\<in>set xs. iou best y < u \<or> det_cls best \<noteq> det_cls y"
    and rest: "sorted_wrt (\<lambda>a b. iou a b < u \<or> det_cls a \<noteq> det_cls b) xs"
    unfolding sorted_wrt.simps by (rule conjunct1, rule conjunct2)
  from all have "filter (\<lambda>det. iou best det < u \<or> det_cls best \<noteq> det_cls det) xs = xs"
    by (simp only: filter_id_conv)
  with Cons.IH [OF rest] show ?case by (simp only: nms_loop_Cons)
qed

lemma nms_loop_suppressed:
  "d \<in> set ds \<Longrightarrow>
   d \<in> set (nms_loop u ds [])
   \<or> (\<exists>k\<in>set (nms_loop u ds []). det_cls k = det_cls d \<and> u \<le> iou k d)"
proof (induction ds rule: nms_loop_induct [where u = u])
  case Nil
  then show ?case by simp
next
  case (Cons best ds)
  let ?rest = "filter (\<lambda>det. iou best det < u \<or> det_cls best \<noteq> det_cls det) ds"
  have out: "set (nms_loop u (best # ds) []) = insert best (set (nms_loop u ?rest []))"
    by (simp only: nms_loop_Cons list.set)
  show ?case
  proof (cases "d = best")
    case True
    then show ?thesis unfolding out by blast
  next
    case False
    with Cons.prems have d: "d \<in> set ds" by simp
    show ?thesis
    proof (cases "iou best d < u \<or> det_cls best \<noteq> det_cls d")
      case True
      with d have "d \<in> set ?rest" by simp
      from Cons.IH [OF this] show ?thesis unfolding out by blast
    next
      case False
      then have "det_cls best = det_cls d \<and> u \<le> iou best d" by auto
      then show ?thesis unfolding out by blast
    qed
  qed
qed

lemma nms_loop_class:
  "filter (\<lambda>d. det_cls d = c) (nms_loop u ds [])
     = nms_loop u (filter (\<lambda>d. det_cls d = c) ds) []"
proof (induction ds rule: nms_loop_induct [where u = u])
  case Nil
  show ?case by simp
next
  case (Cons best ds)
  let ?K = "\<lambda>det. iou best det < u \<or> det_cls best \<noteq> det_cls det"
  let ?C = "\<lambda>d. det_cls d = c"
  show ?case
  proof (cases "det_cls best = c")
    case True
    have comm: "filter ?K (filter ?C ds) = filter ?C (filter ?K ds)"
      by (simp only: filter_filter conj_commute)
    have "filter ?C (nms_loop u (best # ds) []) = best # filter ?C (nms_loop u (filter ?K ds) [])"
      using True by (simp only: nms_loop_Cons filter.simps if_True simp_thms)
    also have "\<dots> = best # nms_loop u (filter ?K (filter ?C ds)) []"
      by (simp only: Cons.IH comm)
    also have "\<dots> = nms_loop u (best # filter ?C ds) []"
      by (simp only: nms_loop_Cons)
    also have "\<dots> = nms_loop u (filter ?C (best # ds)) []"
      using True by (simp only: filter.simps if_True simp_thms)
    finally show ?thesis .
  next
    case False
    have drop: "filter ?C (filter ?K ds) = filter ?C ds"
      unfolding filter_filter
    proof (rule filter_cong [OF refl])
      fix x assume "x \<in> set ds"
      from False show "(?K x \<and> ?C x) = ?C x" by auto
    qed
    have "filter ?C (nms_loop u (best # ds) []) = filter ?C (nms_loop u (filter ?K ds) [])"
      using False by (simp only: nms_loop_Cons filter.simps if_False simp_thms)
    also have "\<dots> = nms_loop u (filter ?C ds) []"
      by (simp only: Cons.IH drop)
    also have "\<dots> = nms_loop u (filter ?C (best # ds)) []"
      using False by (simp only: filter.simps if_False simp_thms)
    finally show ?thesis .
  qed
qed

subsection \<open>The sort and the whole of \<open>nms\<close>\<close>

lemma set_sort_conf_desc: "set (sort_conf_desc ds) = set ds"
  by (simp add: sort_conf_desc_def)

lemma sorted_sort_conf_desc: "sorted (map (\<lambda>x. - det_conf x) (sort_conf_desc ds))"
  by (simp add: sort_conf_desc_def)

lemma sort_conf_desc_id:
  "sorted (map (\<lambda>x. - det_conf x) ds) \<Longrightarrow> sort_conf_desc ds = ds"
  by (simp add: sort_conf_desc_def sort_key_id_if_sorted)

lemma filter_sort_conf_desc:
  "filter P (sort_conf_desc ds) = sort_conf_desc (filter P ds)"
  by (simp add: sort_conf_desc_def filter_sort)

lemma nms_loop_form: "nms ds u = nms_loop u (sort_conf_desc ds) []"
  by (simp add: nms_def sort_conf_desc_def)

lemma nms_subset: "set (nms ds u) \<subseteq> set ds"
  using nms_loop_subset [of u "sort_conf_desc ds"]
  by (simp only: nms_loop_form set_sort_conf_desc)

lemma nms_sorted: "sorted (map (\<lambda>x. - det_conf x) (nms ds u))"
proof -
  have "sorted_wrt (\<lambda>a b. - det_conf a \<le> - det_conf b) (sort_conf_desc ds)"
    using sorted_sort_conf_desc [of ds] by (simp only: sorted_map)
  then have "sorted_wrt (\<lambda>a b. - det_conf a \<le> - det_conf b) (nms ds u)"
    unfolding nms_loop_form by (rule nms_loop_sorted_wrt)
  then show ?thesis by (simp only: sorted_map)
qed

lemma nms_pairwise:
  "sorted_wrt (\<lambda>a b. iou a b < u \<or> det_cls a \<noteq> det_cls b) (nms ds u)"
  unfolding nms_loop_form by (rule nms_loop_pairwise)

lemma nms_fixpoint: "nms (nms ds u) u = nms ds u"
proof -
  have "nms (nms ds u) u = nms_loop u (sort_conf_desc (nms ds u)) []"
    by (rule nms_loop_form)
  also have "\<dots> = nms_loop u (nms ds u) []"
    by (simp only: sort_conf_desc_id [OF nms_sorted])
  also have "\<dots> = nms ds u"
    using nms_pairwise by (rule nms_loop_fixpoint)
  finally show ?thesis .
qed

lemma nms_suppressed:
  assumes "d \<in> set ds"
  shows "d \<in> set (nms ds u) \<or> (\<exists>k\<in>set (nms ds u). det_cls k = det_cls d \<and> u \<le> iou k d)"
proof -
  from assms have "d \<in> set (sort_conf_desc ds)" by (simp only: set_sort_conf_desc)
  then show ?thesis unfolding nms_loop_form by (rule nms_loop_suppressed)
qed

lemma nms_class:
  "filter (\<lambda>d. det_cls d = c) (nms ds u) = nms (filter (\<lambda>d. det_cls d = c) ds) u"
  by (simp only: nms_loop_form nms_loop_class filter_sort_conf_desc)

lemma nms_keeps_other_class:
  assumes sub: "set (nms [a, b] u) \<subseteq> {a, b}"
    and d: "d \<in> set (nms [a, b] u) \<or> (\<exists>k\<in>set (nms [a, b] u). det_cls k = det_cls d \<and> u \<le> iou k d)"
    and other: "\<forall>k\<in>{a, b}. det_cls k = det_cls d \<longrightarrow> k = d"
  shows "d \<in> set (nms [a, b] u)"
  using d
proof
  assume "d \<in> set (nms [a, b] u)"
  then show ?thesis .
next
  assume "\<exists>k\<in>set (nms [a, b] u). det_cls k = det_cls d \<and> u \<le> iou k d"
  then obtain k where k: "k \<in> set (nms [a, b] u)" and c: "det_cls k = det_cls d"
    by (elim bexE conjE)
  from sub k have "k \<in> {a, b}" by (rule subsetD)
  with other have "det_cls k = det_cls d \<longrightarrow> k = d" by (rule bspec)
  from this c have "k = d" by (rule mp)
  with k show ?thesis by (simp only:)
qed

lemma nms_two_classes:
  assumes "det_cls a \<noteq> det_cls b"
  shows "set (nms [a, b] u) = {a, b}"
proof -
  have ab: "set [a, b] = {a, b}" by (simp only: list.set)
  have sub: "set (nms [a, b] u) \<subseteq> {a, b}"
    using nms_subset [of "[a, b]" u] by (simp only: ab)
  have "a \<in> set [a, b]" unfolding ab by (rule insertI1)
  then have "a \<in> set (nms [a, b] u)
      \<or> (\<exists>k\<in>set (nms [a, b] u). det_cls k = det_cls a \<and> u \<le> iou k a)"
    by (rule nms_suppressed)
  moreover have "\<forall>k\<in>{a, b}. det_cls k = det_cls a \<longrightarrow> k = a"
    using assms by simp
  ultimately have a: "a \<in> set (nms [a, b] u)" by (rule nms_keeps_other_class [OF sub])
  have "b \<in> set [a, b]" unfolding ab by (rule insertI2, rule insertI1)
  then have "b \<in> set (nms [a, b] u)
      \<or> (\<exists>k\<in>set (nms [a, b] u). det_cls k = det_cls b \<and> u \<le> iou k b)"
    by (rule nms_suppressed)
  moreover have "\<forall>k\<in>{a, b}. det_cls k = det_cls b \<longrightarrow> k = b"
    using assms by simp
  ultimately have b: "b \<in> set (nms [a, b] u)" by (rule nms_keeps_other_class [OF sub])
  from a b have "{a, b} \<subseteq> set (nms [a, b] u)" by (simp only: insert_subset empty_subsetI simp_thms)
  with sub show ?thesis by (rule equalityI)
qed

lemma nms_head:
  assumes "ds \<noteq> []"
  shows "nms ds u \<noteq> [] \<and> hd (nms ds u) = hd (sort_conf_desc ds)
       \<and> hd (nms ds u) \<in> set ds \<and> (\<forall>d\<in>set ds. det_conf d \<le> det_conf (hd (nms ds u)))"
proof -
  from assms have "sort_conf_desc ds \<noteq> []"
    by (metis set_sort_conf_desc set_empty)
  then obtain best rest where s: "sort_conf_desc ds = best # rest" by (cases "sort_conf_desc ds") auto
  have out: "nms ds u = best # nms_loop u
      (filter (\<lambda>det. iou best det < u \<or> det_cls best \<noteq> det_cls det) rest) []"
    by (simp only: nms_loop_form s nms_loop_Cons)
  have mem: "best \<in> set ds" using set_sort_conf_desc [of ds] s by auto
  have "sorted (map (\<lambda>x. - det_conf x) (best # rest))"
    using sorted_sort_conf_desc [of ds] by (simp only: s)
  then have "\<forall>d\<in>set rest. det_conf d \<le> det_conf best" by simp
  moreover have "set ds = insert best (set rest)"
    using set_sort_conf_desc [of ds] s by simp
  ultimately have top: "\<forall>d\<in>set ds. det_conf d \<le> det_conf best" by simp
  from out s mem top show ?thesis by simp
qed

lemma nms_example:
  "nms [\<lparr>det_x = 15, det_y = 15, det_w = 100, det_h = 100, det_conf = 4/5, det_cls = 0\<rparr>,
        \<lparr>det_x = 10, det_y = 10, det_w = 100, det_h = 100, det_conf = 7/10, det_cls = 1\<rparr>,
        \<lparr>det_x = 10, det_y = 10, det_w = 100, det_h = 100, det_conf = 9/10, det_cls = 0\<rparr>,
        \<lparr>det_x = 200, det_y = 200, det_w = 50, det_h = 50, det_conf = 3/5, det_cls = 0\<rparr>]
       (1/2)
   = [\<lparr>det_x = 10, det_y = 10, det_w = 100, det_h = 100, det_conf = 9/10, det_cls = 0\<rparr>,
      \<lparr>det_x = 10, det_y = 10, det_w = 100, det_h = 100, det_conf = 7/10, det_cls = 1\<rparr>,
      \<lparr>det_x = 200, det_y = 200, det_w = 50, det_h = 50, det_conf = 3/5, det_cls = 0\<rparr>]"
  by code_simp

text \<open>
  Claim C10. For every non-empty list of detections and every threshold, the output of
  \<open>nms\<close> is non-empty and its first element is a detection of the input whose confidence
  is maximal in the input: the best detection always survives and is returned first.
\<close>

theorem nms_best_first:
  assumes "detections \<noteq> []"
  shows "nms detections u \<noteq> []
       \<and> hd (nms detections u) \<in> set detections
       \<and> (\<forall>d\<in>set detections. det_conf d \<le> det_conf (hd (nms detections u)))"
proof -
  from nms_head [OF assms, of u]
  have a: "nms detections u \<noteq> []"
    and b: "hd (nms detections u) \<in> set detections
       \<and> (\<forall>d\<in>set detections. det_conf d \<le> det_conf (hd (nms detections u)))"
    by (rule conjunct1, rule conjunct2 [OF conjunct2])
  from a b show ?thesis by (rule conjI)
qed

theorem nms_best_first_witness:
  "[\<lparr>det_x = 15, det_y = 15, det_w = 100, det_h = 100, det_conf = 4/5, det_cls = 0\<rparr>,
        \<lparr>det_x = 10, det_y = 10, det_w = 100, det_h = 100, det_conf = 7/10, det_cls = 1\<rparr>,
        \<lparr>det_x = 10, det_y = 10, det_w = 100, det_h = 100, det_conf = 9/10, det_cls = 0\<rparr>,
        \<lparr>det_x = 200, det_y = 200, det_w = 50, det_h = 50, det_conf = 3/5, det_cls = 0\<rparr>] \<noteq> []
   \<and> nms [\<lparr>det_x = 15, det_y = 15, det_w = 100, det_h = 100, det_conf = 4/5, det_cls = 0\<rparr>,
        \<lparr>det_x = 10, det_y = 10, det_w = 100, det_h = 100, det_conf = 7/10, det_cls = 1\<rparr>,
        \<lparr>det_x = 10, det_y = 10, det_w = 100, det_h = 100, det_conf = 9/10, det_cls = 0\<rparr>,
        \<lparr>det_x = 200, det_y = 200, det_w = 50, det_h = 50, det_conf = 3/5, det_cls = 0\<rparr>] (1/2) \<noteq> []
   \<and> det_conf (hd (nms [\<lparr>det_x = 15, det_y = 15, det_w = 100, det_h = 100, det_conf = 4/5, det_cls = 0\<rparr>,
        \<lparr>det_x = 10, det_y = 10, det_w = 100, det_h = 100, det_conf = 7/10, det_cls = 1\<rparr>,
        \<lparr>det_x = 10, det_y = 10, det_w = 100, det_h = 100, det_conf = 9/10, det_cls = 0\<rparr>,
        \<lparr>det_x = 200, det_y = 200, det_w = 50, det_h = 50, det_conf = 3/5, det_cls = 0\<rparr>] (1/2))) = 9/10"
proof -
  have ne: "[\<lparr>det_x = 15, det_y = 15, det_w = 100, det_h = 100, det_conf = 4/5, det_cls = 0\<rparr>,
        \<lparr>det_x = 10, det_y = 10, det_w = 100, det_h = 100, det_conf = 7/10, det_cls = 1\<rparr>,
        \<lparr>det_x = 10, det_y = 10, det_w = 100, det_h = 100, det_conf = 9/10, det_cls = 0\<rparr>,
        \<lparr>det_x = 200, det_y = 200, det_w = 50, det_h = 50, det_conf = 3/5, det_cls = 0\<rparr>] \<noteq> []" by simp
  from nms_best_first [OF ne, of "1/2"]
  have "nms [\<lparr>det_x = 15, det_y = 15, det_w = 100, det_h = 100, det_conf = 4/5, det_cls = 0\<rparr>,
        \<lparr>det_x = 10, det_y = 10, det_w = 100, det_h = 100, det_conf = 7/10, det_cls = 1\<rparr>,
        \<lparr>det_x = 10, det_y = 10, det_w = 100, det_h = 100, det_conf = 9/10, det_cls = 0\<rparr>,
        \<lparr>det_x = 200, det_y = 200, det_w = 50, det_h = 50, det_conf = 3/5, det_cls = 0\<rparr>] (1/2) \<noteq> []" by (rule conjunct1)
  moreover have "det_conf (hd (nms [\<lparr>det_x = 15, det_y = 15, det_w = 100, det_h = 100, det_conf = 4/5, det_cls = 0\<rparr>,
        \<lparr>det_x = 10, det_y = 10, det_w = 100, det_h = 100, det_conf = 7/10, det_cls = 1\<rparr>,
        \<lparr>det_x = 10, det_y = 10, det_w = 100, det_h = 100, det_conf = 9/10, det_cls = 0\<rparr>,
        \<lparr>det_x = 200, det_y = 200, det_w = 50, det_h = 50, det_conf = 3/5, det_cls = 0\<rparr>] (1/2))) = 9/10"
    unfolding nms_example by simp
  ultimately show ?thesis using ne by (simp only: simp_thms)
qed

text \<open>
  Claim C7. \<open>nms\<close> is idempotent: applied to its own output with the same threshold it
  returns that output unchanged, for every list of detections and every threshold.
\<close>

theorem nms_idempotent: "nms (nms detections u) u = nms detections u"
  by (rule nms_fixpoint)

theorem nms_idempotent_witness:
  "nms (nms [\<lparr>det_x = 15, det_y = 15, det_w = 100, det_h = 100, det_conf = 4/5, det_cls = 0\<rparr>,
        \<lparr>det_x = 10, det_y = 10, det_w = 100, det_h = 100, det_conf = 7/10, det_cls = 1\<rparr>,
        \<lparr>det_x = 10, det_y = 10, det_w = 100, det_h = 100, det_conf = 9/10, det_cls = 0\<rparr>,
        \<lparr>det_x = 200, det_y = 200, det_w = 50, det_h = 50, det_conf = 3/5, det_cls = 0\<rparr>] (1/2)) (1/2)
   = [\<lparr>det_x = 10, det_y = 10, det_w = 100, det_h = 100, det_conf = 9/10, det_cls = 0\<rparr>,
      \<lparr>det_x = 10, det_y = 10, det_w = 100, det_h = 100, det_conf = 7/10, det_cls = 1\<rparr>,
      \<lparr>det_x = 200, det_y = 200, det_w = 50, det_h = 50, det_conf = 3/5, det_cls = 0\<rparr>]"
  using nms_idempotent [of "[\<lparr>det_x = 15, det_y = 15, det_w = 100, det_h = 100, det_conf = 4/5, det_cls = 0\<rparr>,
        \<lparr>det_x = 10, det_y = 10, det_w = 100, det_h = 100, det_conf = 7/10, det_cls = 1\<rparr>,
        \<lparr>det_x = 10, det_y = 10, det_w = 100, det_h = 100, det_conf = 9/10, det_cls = 0\<rparr>,
        \<lparr>det_x = 200, det_y = 200, det_w = 50, det_h = 50, det_conf = 3/5, det_cls = 0\<rparr>]" "1/2"] by (simp only: nms_example)

text \<open>
  Claim C1. For every list of detections and every threshold \<open>u\<close> (in particular every
  \<open>u\<close> in \<open>[0,1]\<close>), no two detections that \<open>nms\<close> returns have the same class and an
  IoU of \<open>u\<close> or more, in either order of the pair. Detections of different classes never
  suppress each other: a detection that is dropped was dropped by a returned detection of
  its own class with IoU at least \<open>u\<close>; the returned detections of a class are exactly
  what \<open>nms\<close> returns on the detections of that class alone; and two boxes of different
  classes are both returned, whatever their overlap.
\<close>

theorem nms_suppresses_within_class:
  "(\<forall>i j. i < j \<and> j < length (nms detections u) \<longrightarrow>
          det_cls (nms detections u ! i) = det_cls (nms detections u ! j) \<longrightarrow>
          iou (nms detections u ! i) (nms detections u ! j) < u
          \<and> iou (nms detections u ! j) (nms detections u ! i) < u)
   \<and> (\<forall>d\<in>set detections.
          d \<in> set (nms detections u)
          \<or> (\<exists>k\<in>set (nms detections u). det_cls k = det_cls d \<and> u \<le> iou k d))
   \<and> (\<forall>c. filter (\<lambda>d. det_cls d = c) (nms detections u)
            = nms (filter (\<lambda>d. det_cls d = c) detections) u)
   \<and> (det_cls a \<noteq> det_cls b \<longrightarrow> set (nms [a, b] u) = {a, b})"
proof -
  have pair: "\<forall>i j. i < j \<and> j < length (nms detections u) \<longrightarrow>
          det_cls (nms detections u ! i) = det_cls (nms detections u ! j) \<longrightarrow>
          iou (nms detections u ! i) (nms detections u ! j) < u
          \<and> iou (nms detections u ! j) (nms detections u ! i) < u"
  proof (intro allI impI)
    fix i j
    assume ij: "i < j \<and> j < length (nms detections u)"
      and cls: "det_cls (nms detections u ! i) = det_cls (nms detections u ! j)"
    from ij have "i < j" and "j < length (nms detections u)" by (rule conjunct1, rule conjunct2)
    with nms_pairwise [of u detections]
    have "iou (nms detections u ! i) (nms detections u ! j) < u
          \<or> det_cls (nms detections u ! i) \<noteq> det_cls (nms detections u ! j)"
      by (rule sorted_wrt_nth_less)
    with cls have lt: "iou (nms detections u ! i) (nms detections u ! j) < u"
      by (simp only: simp_thms)
    then have "iou (nms detections u ! j) (nms detections u ! i) < u"
      by (simp only: iou_sym [of "nms detections u ! j"])
    with lt show "iou (nms detections u ! i) (nms detections u ! j) < u
          \<and> iou (nms detections u ! j) (nms detections u ! i) < u"
      by (rule conjI)
  qed
  have supp: "\<forall>d\<in>set detections.
          d \<in> set (nms detections u)
          \<or> (\<exists>k\<in>set (nms detections u). det_cls k = det_cls d \<and> u \<le> iou k d)"
    by (rule ballI) (rule nms_suppressed)
  have proj: "\<forall>c. filter (\<lambda>d. det_cls d = c) (nms detections u)
            = nms (filter (\<lambda>d. det_cls d = c) detections) u"
    by (rule allI) (rule nms_class)
  have two: "det_cls a \<noteq> det_cls b \<longrightarrow> set (nms [a, b] u) = {a, b}"
    by (rule impI) (rule nms_two_classes)
  from pair supp proj two show ?thesis by (intro conjI)
qed

lemma iou_example_far:
  "iou \<lparr>det_x = 10, det_y = 10, det_w = 100, det_h = 100, det_conf = 9/10, det_cls = 0\<rparr>
       \<lparr>det_x = 200, det_y = 200, det_w = 50, det_h = 50, det_conf = 3/5, det_cls = 0\<rparr> = 0"
  by (simp add: iou_value union_area_def inter_area_def Let_def)

lemma iou_example_near:
  "iou \<lparr>det_x = 10, det_y = 10, det_w = 100, det_h = 100, det_conf = 9/10, det_cls = 0\<rparr>
       \<lparr>det_x = 15, det_y = 15, det_w = 100, det_h = 100, det_conf = 4/5, det_cls = 0\<rparr> = 361/439"
  by (simp add: iou_value union_area_def inter_area_def Let_def)

theorem nms_suppresses_within_class_witness:
  "nms [\<lparr>det_x = 15, det_y = 15, det_w = 100, det_h = 100, det_conf = 4/5, det_cls = 0\<rparr>,
        \<lparr>det_x = 10, det_y = 10, det_w = 100, det_h = 100, det_conf = 7/10, det_cls = 1\<rparr>,
        \<lparr>det_x = 10, det_y = 10, det_w = 100, det_h = 100, det_conf = 9/10, det_cls = 0\<rparr>,
        \<lparr>det_x = 200, det_y = 200, det_w = 50, det_h = 50, det_conf = 3/5, det_cls = 0\<rparr>] (1/2)
   = [\<lparr>det_x = 10, det_y = 10, det_w = 100, det_h = 100, det_conf = 9/10, det_cls = 0\<rparr>,
      \<lparr>det_x = 10, det_y = 10, det_w = 100, det_h = 100, det_conf = 7/10, det_cls = 1\<rparr>,
      \<lparr>det_x = 200, det_y = 200, det_w = 50, det_h = 50, det_conf = 3/5, det_cls = 0\<rparr>]
   \<and> iou \<lparr>det_x = 10, det_y = 10, det_w = 100, det_h = 100, det_conf = 9/10, det_cls = 0\<rparr>
         \<lparr>det_x = 200, det_y = 200, det_w = 50, det_h = 50, det_conf = 3/5, det_cls = 0\<rparr> < 1/2
   \<and> 1/2 \<le> iou \<lparr>det_x = 10, det_y = 10, det_w = 100, det_h = 100, det_conf = 9/10, det_cls = 0\<rparr>
              \<lparr>det_x = 15, det_y = 15, det_w = 100, det_h = 100, det_conf = 4/5, det_cls = 0\<rparr>
   \<and> set (nms [\<lparr>det_x = 10, det_y = 10, det_w = 100, det_h = 100, det_conf = 9/10, det_cls = 0\<rparr>,
               \<lparr>det_x = 10, det_y = 10, det_w = 100, det_h = 100, det_conf = 7/10, det_cls = 1\<rparr>] (1/2))
     = {\<lparr>det_x = 10, det_y = 10, det_w = 100, det_h = 100, det_conf = 9/10, det_cls = 0\<rparr>,
        \<lparr>det_x = 10, det_y = 10, det_w = 100, det_h = 100, det_conf = 7/10, det_cls = 1\<rparr>}"
proof -
  note t = nms_suppresses_within_class
    [of "[\<lparr>det_x = 15, det_y = 15, det_w = 100, det_h = 100, det_conf = 4/5, det_cls = 0\<rparr>,
        \<lparr>det_x = 10, det_y = 10, det_w = 100, det_h = 100, det_conf = 7/10, det_cls = 1\<rparr>,
        \<lparr>det_x = 10, det_y = 10, det_w = 100, det_h = 100, det_conf = 9/10, det_cls = 0\<rparr>,
        \<lparr>det_x = 200, det_y = 200, det_w = 50, det_h = 50, det_conf = 3/5, det_cls = 0\<rparr>]" "1/2"
        "\<lparr>det_x = 10, det_y = 10, det_w = 100, det_h = 100, det_conf = 9/10, det_cls = 0\<rparr>"
        "\<lparr>det_x = 10, det_y = 10, det_w = 100, det_h = 100, det_conf = 7/10, det_cls = 1\<rparr>"]
  from t have "\<forall>i j. i < j \<and> j < length (nms [\<lparr>det_x = 15, det_y = 15, det_w = 100, det_h = 100, det_conf = 4/5, det_cls = 0\<rparr>,
        \<lparr>det_x = 10, det_y = 10, det_w = 100, det_h = 100, det_conf = 7/10, det_cls = 1\<rparr>,
        \<lparr>det_x = 10, det_y = 10, det_w = 100, det_h = 100, det_conf = 9/10, det_cls = 0\<rparr>,
        \<lparr>det_x = 200, det_y = 200, det_w = 50, det_h = 50, det_conf = 3/5, det_cls = 0\<rparr>] (1/2)) \<longrightarrow>
          det_cls (nms [\<lparr>det_x = 15, det_y = 15, det_w = 100, det_h = 100, det_conf = 4/5, det_cls = 0\<rparr>,
        \<lparr>det_x = 10, det_y = 10, det_w = 100, det_h = 100, det_conf = 7/10, det_cls = 1\<rparr>,
        \<lparr>det_x = 10, det_y = 10, det_w = 100, det_h = 100, det_conf = 9/10, det_cls = 0\<rparr>,
        \<lparr>det_x = 200, det_y = 200, det_w = 50, det_h = 50, det_conf = 3/5, det_cls = 0\<rparr>] (1/2) ! i) = det_cls (nms [\<lparr>det_x = 15, det_y = 15, det_w = 100, det_h = 100, det_conf = 4/5, det_cls = 0\<rparr>,
        \<lparr>det_x = 10, det_y = 10, det_w = 100, det_h = 100, det_conf = 7/10, det_cls = 1\<rparr>,
        \<lparr>det_x = 10, det_y = 10, det_w = 100, det_h = 100, det_conf = 9/10, det_cls = 0\<rparr>,
        \<lparr>det_x = 200, det_y = 200, det_w = 50, det_h = 50, det_conf = 3/5, det_cls = 0\<rparr>] (1/2) ! j) \<longrightarrow>
          iou (nms [\<lparr>det_x = 15, det_y = 15, det_w = 100, det_h = 100, det_conf = 4/5, det_cls = 0\<rparr>,
        \<lparr>det_x = 10, det_y = 10, det_w = 100, det_h = 100, det_conf = 7/10, det_cls = 1\<rparr>,
        \<lparr>det_x = 10, det_y = 10, det_w = 100, det_h = 100, det_conf = 9/10, det_cls = 0\<rparr>,
        \<lparr>det_x = 200, det_y = 200, det_w = 50, det_h = 50, det_conf = 3/5, det_cls = 0\<rparr>] (1/2) ! i) (nms [\<lparr>det_x = 15, det_y = 15, det_w = 100, det_h = 100, det_conf = 4/5, det_cls = 0\<rparr>,
        \<lparr>det_x = 10, det_y = 10, det_w = 100, det_h = 100, det_conf = 7/10, det_cls = 1\<rparr>,
        \<lparr>det_x = 10, det_y = 10, det_w = 100, det_h = 100, det_conf = 9/10, det_cls = 0\<rparr>,
        \<lparr>det_x = 200, det_y = 200, det_w = 50, det_h = 50, det_conf = 3/5, det_cls = 0\<rparr>] (1/2) ! j) < 1/2
          \<and> iou (nms [\<lparr>det_x = 15, det_y = 15, det_w = 100, det_h = 100, det_conf = 4/5, det_cls = 0\<rparr>,
        \<lparr>det_x = 10, det_y = 10, det_w = 100, det_h = 100, det_conf = 7/10, det_cls = 1\<rparr>,
        \<lparr>det_x = 10, det_y = 10, det_w = 100, det_h = 100, det_conf = 9/10, det_cls = 0\<rparr>,
        \<lparr>det_x = 200, det_y = 200, det_w = 50, det_h = 50, det_conf = 3/5, det_cls = 0\<rparr>] (1/2) ! j) (nms [\<lparr>det_x = 15, det_y = 15, det_w = 100, det_h = 100, det_conf = 4/5, det_cls = 0\<rparr>,
        \<lparr>det_x = 10, det_y = 10, det_w = 100, det_h = 100, det_conf = 7/10, det_cls = 1\<rparr>,
        \<lparr>det_x = 10, det_y = 10, det_w = 100, det_h = 100, det_conf = 9/10, det_cls = 0\<rparr>,
        \<lparr>det_x = 200, det_y = 200, det_w = 50, det_h = 50, det_conf = 3/5, det_cls = 0\<rparr>] (1/2) ! i) < 1/2"
    by (rule conjunct1)
  then have "\<forall>j. 0 < j \<and> j < length (nms [\<lparr>det_x = 15, det_y = 15, det_w = 100, det_h = 100, det_conf = 4/5, det_cls = 0\<rparr>,
        \<lparr>det_x = 10, det_y = 10, det_w = 100, det_h = 100, det_conf = 7/10, det_cls = 1\<rparr>,
        \<lparr>det_x = 10, det_y = 10, det_w = 100, det_h = 100, det_conf = 9/10, det_cls = 0\<rparr>,
        \<lparr>det_x = 200, det_y = 200, det_w = 50, det_h = 50, det_conf = 3/5, det_cls = 0\<rparr>] (1/2)) \<longrightarrow>
          det_cls (nms [\<lparr>det_x = 15, det_y = 15, det_w = 100, det_h = 100, det_conf = 4/5, det_cls = 0\<rparr>,
        \<lparr>det_x = 10, det_y = 10, det_w = 100, det_h = 100, det_conf = 7/10, det_cls = 1\<rparr>,
        \<lparr>det_x = 10, det_y = 10, det_w = 100, det_h = 100, det_conf = 9/10, det_cls = 0\<rparr>,
        \<lparr>det_x = 200, det_y = 200, det_w = 50, det_h = 50, det_conf = 3/5, det_cls = 0\<rparr>] (1/2) ! 0) = det_cls (nms [\<lparr>det_x = 15, det_y = 15, det_w = 100, det_h = 100, det_conf = 4/5, det_cls = 0\<rparr>,
        \<lparr>det_x = 10, det_y = 10, det_w = 100, det_h = 100, det_conf = 7/10, det_cls = 1\<rparr>,
        \<lparr>det_x = 10, det_y = 10, det_w = 100, det_h = 100, det_conf = 9/10, det_cls = 0\<rparr>,
        \<lparr>det_x = 200, det_y = 200, det_w = 50, det_h = 50, det_conf = 3/5, det_cls = 0\<rparr>] (1/2) ! j) \<longrightarrow>
          iou (nms [\<lparr>det_x = 15, det_y = 15, det_w = 100, det_h = 100, det_conf = 4/5, det_cls = 0\<rparr>,
        \<lparr>det_x = 10, det_y = 10, det_w = 100, det_h = 100, det_conf = 7/10, det_cls = 1\<rparr>,
        \<lparr>det_x = 10, det_y = 10, det_w = 100, det_h = 100, det_conf = 9/10, det_cls = 0\<rparr>,
        \<lparr>det_x = 200, det_y = 200, det_w = 50, det_h = 50, det_conf = 3/5, det_cls = 0\<rparr>] (1/2) ! 0) (nms [\<lparr>det_x = 15, det_y = 15, det_w = 100, det_h = 100, det_conf = 4/5, det_cls = 0\<rparr>,
        \<lparr>det_x = 10, det_y = 10, det_w = 100, det_h = 100, det_conf = 7/10, det_cls = 1\<rparr>,
        \<lparr>det_x = 10, det_y = 10, det_w = 100, det_h = 100, det_conf = 9/10, det_cls = 0\<rparr>,
        \<lparr>det_x = 200, det_y = 200, det_w = 50, det_h = 50, det_conf = 3/5, det_cls = 0\<rparr>] (1/2) ! j) < 1/2
          \<and> iou (nms [\<lparr>det_x = 15, det_y = 15, det_w = 100, det_h = 100, det_conf = 4/5, det_cls = 0\<rparr>,
        \<lparr>det_x = 10, det_y = 10, det_w = 100, det_h = 100, det_conf = 7/10, det_cls = 1\<rparr>,
        \<lparr>det_x = 10, det_y = 10, det_w = 100, det_h = 100, det_conf = 9/10, det_cls = 0\<rparr>,
        \<lparr>det_x = 200, det_y = 200, det_w = 50, det_h = 50, det_conf = 3/5, det_cls = 0\<rparr>] (1/2) ! j) (nms [\<lparr>det_x = 15, det_y = 15, det_w = 100, det_h = 100, det_conf = 4/5, det_cls = 0\<rparr>,
        \<lparr>det_x = 10, det_y = 10, det_w = 100, det_h = 100, det_conf = 7/10, det_cls = 1\<rparr>,
        \<lparr>det_x = 10, det_y = 10, det_w = 100, det_h = 100, det_conf = 9/10, det_cls = 0\<rparr>,
        \<lparr>det_x = 200, det_y = 200, det_w = 50, det_h = 50, det_conf = 3/5, det_cls = 0\<rparr>] (1/2) ! 0) < 1/2"
    by (rule spec)
  then have "0 < (2::nat) \<and> 2 < length (nms [\<lparr>det_x = 15, det_y = 15, det_w = 100, det_h = 100, det_conf = 4/5, det_cls = 0\<rparr>,
        \<lparr>det_x = 10, det_y = 10, det_w = 100, det_h = 100, det_conf = 7/10, det_cls = 1\<rparr>,
        \<lparr>det_x = 10, det_y = 10, det_w = 100, det_h = 100, det_conf = 9/10, det_cls = 0\<rparr>,
        \<lparr>det_x = 200, det_y = 200, det_w = 50, det_h = 50, det_conf = 3/5, det_cls = 0\<rparr>] (1/2)) \<longrightarrow>
          det_cls (nms [\<lparr>det_x = 15, det_y = 15, det_w = 100, det_h = 100, det_conf = 4/5, det_cls = 0\<rparr>,
        \<lparr>det_x = 10, det_y = 10, det_w = 100, det_h = 100, det_conf = 7/10, det_cls = 1\<rparr>,
        \<lparr>det_x = 10, det_y = 10, det_w = 100, det_h = 100, det_conf = 9/10, det_cls = 0\<rparr>,
        \<lparr>det_x = 200, det_y = 200, det_w = 50, det_h = 50, det_conf = 3/5, det_cls = 0\<rparr>] (1/2) ! 0) = det_cls (nms [\<lparr>det_x = 15, det_y = 15, det_w = 100, det_h = 100, det_conf = 4/5, det_cls = 0\<rparr>,
        \<lparr>det_x = 10, det_y = 10, det_w = 100, det_h = 100, det_conf = 7/10, det_cls = 1\<rparr>,
        \<lparr>det_x = 10, det_y = 10, det_w = 100, det_h = 100, det_conf = 9/10, det_cls = 0\<rparr>,
        \<lparr>det_x = 200, det_y = 200, det_w = 50, det_h = 50, det_conf = 3/5, det_cls = 0\<rparr>] (1/2) ! 2) \<longrightarrow>
          iou (nms [\<lparr>det_x = 15, det_y = 15, det_w = 100, det_h = 100, det_conf = 4/5, det_cls = 0\<rparr>,
        \<lparr>det_x = 10, det_y = 10, det_w = 100, det_h = 100, det_conf = 7/10, det_cls = 1\<rparr>,
        \<lparr>det_x = 10, det_y = 10, det_w = 100, det_h = 100, det_conf = 9/10, det_cls = 0\<rparr>,
        \<lparr>det_x = 200, det_y = 200, det_w = 50, det_h = 50, det_conf = 3/5, det_cls = 0\<rparr>] (1/2) ! 0) (nms [\<lparr>det_x = 15, det_y = 15, det_w = 100, det_h = 100, det_conf = 4/5, det_cls = 0\<rparr>,
        \<lparr>det_x = 10, det_y = 10, det_w = 100, det_h = 100, det_conf = 7/10, det_cls = 1\<rparr>,
        \<lparr>det_x = 10, det_y = 10, det_w = 100, det_h = 100, det_conf = 9/10, det_cls = 0\<rparr>,
        \<lparr>det_x = 200, det_y = 200, det_w = 50, det_h = 50, det_conf = 3/5, det_cls = 0\<rparr>] (1/2) ! 2) < 1/2
          \<and> iou (nms [\<lparr>det_x = 15, det_y = 15, det_w = 100, det_h = 100, det_conf = 4/5, det_cls = 0\<rparr>,
        \<lparr>det_x = 10, det_y = 10, det_w = 100, det_h = 100, det_conf = 7/10, det_cls = 1\<rparr>,
        \<lparr>det_x = 10, det_y = 10, det_w = 100, det_h = 100, det_conf = 9/10, det_cls = 0\<rparr>,
        \<lparr>det_x = 200, det_y = 200, det_w = 50, det_h = 50, det_conf = 3/5, det_cls = 0\<rparr>] (1/2) ! 2) (nms [\<lparr>det_x = 15, det_y = 15, det_w = 100, det_h = 100, det_conf = 4/5, det_cls = 0\<rparr>,
        \<lparr>det_x = 10, det_y = 10, det_w = 100, det_h = 100, det_conf = 7/10, det_cls = 1\<rparr>,
        \<lparr>det_x = 10, det_y = 10, det_w = 100, det_h = 100, det_conf = 9/10, det_cls = 0\<rparr>,
        \<lparr>det_x = 200, det_y = 200, det_w = 50, det_h = 50, det_conf = 3/5, det_cls = 0\<rparr>] (1/2) ! 0) < 1/2"
    by (rule spec)
  then have far: "iou \<lparr>det_x = 10, det_y = 10, det_w = 100, det_h = 100, det_conf = 9/10, det_cls = 0\<rparr>
         \<lparr>det_x = 200, det_y = 200, det_w = 50, det_h = 50, det_conf = 3/5, det_cls = 0\<rparr> < 1/2"
    unfolding nms_example by simp
  have near: "1/2 \<le> iou \<lparr>det_x = 10, det_y = 10, det_w = 100, det_h = 100, det_conf = 9/10, det_cls = 0\<rparr>
              \<lparr>det_x = 15, det_y = 15, det_w = 100, det_h = 100, det_conf = 4/5, det_cls = 0\<rparr>"
    unfolding iou_example_near by simp
  from t have "det_cls \<lparr>det_x = 10, det_y = 10, det_w = 100, det_h = 100, det_conf = 9/10, det_cls = 0\<rparr> \<noteq> det_cls \<lparr>det_x = 10, det_y = 10, det_w = 100, det_h = 100, det_conf = 7/10, det_cls = 1\<rparr> \<longrightarrow>
      set (nms [\<lparr>det_x = 10, det_y = 10, det_w = 100, det_h = 100, det_conf = 9/10, det_cls = 0\<rparr>,
               \<lparr>det_x = 10, det_y = 10, det_w = 100, det_h = 100, det_conf = 7/10, det_cls = 1\<rparr>] (1/2))
     = {\<lparr>det_x = 10, det_y = 10, det_w = 100, det_h = 100, det_conf = 9/10, det_cls = 0\<rparr>,
        \<lparr>det_x = 10, det_y = 10, det_w = 100, det_h = 100, det_conf = 7/10, det_cls = 1\<rparr>}"
    by (rule conjunct2 [OF conjunct2 [OF conjunct2]])
  then have two: "set (nms [\<lparr>det_x = 10, det_y = 10, det_w = 100, det_h = 100, det_conf = 9/10, det_cls = 0\<rparr>,
               \<lparr>det_x = 10, det_y = 10, det_w = 100, det_h = 100, det_conf = 7/10, det_cls = 1\<rparr>] (1/2))
     = {\<lparr>det_x = 10, det_y = 10, det_w = 100, det_h = 100, det_conf = 9/10, det_cls = 0\<rparr>,
        \<lparr>det_x = 10, det_y = 10, det_w = 100, det_h = 100, det_conf = 7/10, det_cls = 1\<rparr>}"
    by simp
  from nms_example far near two show ?thesis by (intro conjI)
qed

end
